theory Spec2Isabelle
  imports Complex_Main "HOL-Library.Multiset"
begin

section \<open>Python values shared by the embedded functions\<close>

text \<open>
  Exceptions are values. The harness defines no exception class of its own: what its
  functions raise are Python builtins, and what the numerical framework raises
  reaches the caller unchanged.
\<close>

datatype error =
    IndexError
  | ValueError
  | ZeroDivisionError
  | NotImplementedError
  | KeyError
  | FrameworkError string

text \<open>
  Python's sequence indexing: position \<open>i\<close> of a sequence of length \<open>n\<close> is
  \<open>i\<close> itself when \<open>0 \<le> i < n\<close>, counts from the end when \<open>-n \<le> i < 0\<close>,
  and is out of range otherwise.
\<close>

definition py_index :: "nat \<Rightarrow> int \<Rightarrow> nat option" where
  "py_index n i =
     (if 0 \<le> i \<and> i < int n then Some (nat i)
      else if - int n \<le> i \<and> i < 0 then Some (nat (int n + i))
      else None)"

text \<open>The position a valid Python index denotes.\<close>

definition py_pos :: "nat \<Rightarrow> int \<Rightarrow> nat" where
  "py_pos n i = (if i < 0 then nat (int n + i) else nat i)"

section \<open>utils.py: AverageMeter\<close>






section \<open>utils.py: postprocess_indices\<close>


definition masked_select :: "'a list \<Rightarrow> bool list \<Rightarrow> 'a list" where
  "masked_select xs msk = map fst (filter snd (zip xs msk))"


section \<open>utils.py: stratified_random_sampling\<close>



section \<open>utils.py: create_loaders and perform_sampling\<close>

text \<open>
  The dataset objects (\<open>WeaklySupervisedDataset\<close>) are declared outside the files at
  hand; the functions here read and write two of their attributes: \<open>indices\<close>, the
  index array the dataset iterates over, and \<open>targets\<close>, the label array. \<open>get_loss\<close>
  reads \<open>unlabeled_dataset.targets[unlabeled_indices]\<close> and \<open>get_dataset\<close> reads
  \<open>np.array(base_dataset.targets)[labeled_indices]\<close>: the label array is addressed by
  dataset index.
\<close>

record dataset =
  ds_indices :: "int list"
  ds_targets :: "int list"




text \<open>
  \<^verbatim>\<open>
  pseudo_labels_acc = np.zeros(samples_indices.shape[0])
  for i, j in enumerate(samples_indices):
      if labeled_dataset.targets[j] == samples_targets[i]:
          pseudo_labels_acc[i] = 1
      else:
          labeled_dataset.targets[j] = samples_targets[i]
  \<close>
  The loop state is the label array and the accuracy array; \<open>i\<close> counts the iterations.
\<close>

fun pseudo_label_loop ::
  "int list \<Rightarrow> nat \<Rightarrow> int list \<Rightarrow> int list \<times> nat list \<Rightarrow> error + (int list \<times> nat list)" where
  "pseudo_label_loop samples_targets i [] (targets, pseudo_labels_acc) =
     Inr (targets, pseudo_labels_acc)"
| "pseudo_label_loop samples_targets i (j # js) (targets, pseudo_labels_acc) =
     (case py_index (length targets) j of
        None \<Rightarrow> Inl IndexError
      | Some p \<Rightarrow>
          if length samples_targets \<le> i then Inl IndexError
          else if targets ! p = samples_targets ! i
          then pseudo_label_loop samples_targets (Suc i) js
                 (targets, pseudo_labels_acc[i := 1])
          else pseudo_label_loop samples_targets (Suc i) js
                 (targets[p := samples_targets ! i], pseudo_labels_acc))"




section \<open>data/cifar10_dataset.py: Cifar10Dataset\<close>

text \<open>
  Python floats are taken as exact rationals. \<open>int(x)\<close> on a float truncates towards
  zero.
\<close>

definition py_int :: "rat \<Rightarrow> int" where
  "py_int x = (if 0 \<le> x then \<lfloor>x\<rfloor> else \<lceil>x\<rceil>)"

text \<open>
  \<open>train_test_split(arr, test_size=t, shuffle=True, stratify=None)\<close> belongs to
  scikit-learn. With a float \<open>t\<close> it raises ValueError unless \<open>0 < t < 1\<close>, takes
  \<open>n_test = ceil(t * n_samples)\<close> and \<open>n_train = n_samples - n_test\<close>, raises
  ValueError when the train part would be empty, draws a permutation of
  \<open>range(n_samples)\<close>, and returns the entries of \<open>arr\<close> at
  \<open>permutation[n_test : n_test + n_train]\<close> (train) and at \<open>permutation[:n_test]\<close>
  (test). The permutation drawn is the parameter \<open>permutation\<close>.
\<close>

definition train_test_split ::
  "nat list \<Rightarrow> int list \<Rightarrow> rat \<Rightarrow> error + (int list \<times> int list)" where
  "train_test_split permutation arr test_size =
     (let n_samples = length arr in
      if test_size \<le> 0 \<or> 1 \<le> test_size then Inl ValueError
      else
        let n_test = nat \<lceil>test_size * of_nat n_samples\<rceil>;
            n_train = n_samples - n_test
        in if n_train = 0 then Inl ValueError
           else Inr (map (nth arr) (take n_train (drop n_test permutation)),
                     map (nth arr) (take n_test permutation)))"

text \<open>\<open>np.arange(n)\<close>.\<close>

definition arange :: "nat \<Rightarrow> int list" where
  "arange n = map int [0..<n]"

text \<open>
  \<^verbatim>\<open>
  class Cifar10Dataset:
      def __init__(self, root, labeled_ratio, add_labeled_ratio):
          self.labeled_ratio = labeled_ratio
          self.input_size = 32
          self.num_classes = 10
          self.add_labeled_ratio = add_labeled_ratio
          self.add_labeled_num = None
          self.remove_classes = np.array([0, 1, 2])
  \<close>
  The root directory and the image transforms are left out.
\<close>

record cifar10_dataset =
  labeled_ratio :: rat
  input_size :: nat
  num_classes :: nat
  add_labeled_ratio :: rat
  add_labeled_num :: "int option"
  remove_classes :: "int list"

definition Cifar10Dataset :: "rat \<Rightarrow> rat \<Rightarrow> cifar10_dataset" where
  "Cifar10Dataset labeled_ratio' add_labeled_ratio' =
     \<lparr>labeled_ratio = labeled_ratio', input_size = 32, num_classes = 10,
      add_labeled_ratio = add_labeled_ratio', add_labeled_num = None,
      remove_classes = [0, 1, 2]\<rparr>"

text \<open>
  \<open>WeaklySupervisedDataset(base_dataset, indices, transform)\<close>: the class is declared
  outside the files at hand. The model holds the index array it is given and the labels
  of the base dataset.
\<close>

definition WeaklySupervisedDataset :: "int list \<Rightarrow> int list \<Rightarrow> dataset" where
  "WeaklySupervisedDataset base_targets indices =
     \<lparr>ds_indices = indices, ds_targets = base_targets\<rparr>"

text \<open>
  \<^verbatim>\<open>
  def get_dataset(self):
      base_dataset = torchvision.datasets.CIFAR10(root=self.root, train=True, ...)
      self.add_labeled_num = int(len(base_dataset) * self.add_labeled_ratio)
      labeled_indices, unlabeled_indices = train_test_split(
          np.arange(len(base_dataset)), test_size=(1 - self.labeled_ratio),
          shuffle=True, stratify=None)
      test_dataset = torchvision.datasets.CIFAR10(root=self.root, train=False, ...)
      targets = np.array(base_dataset.targets)[labeled_indices]
      labeled_indices = labeled_indices[~np.isin(targets, self.remove_classes)]
      labeled_dataset = WeaklySupervisedDataset(base_dataset, labeled_indices, ...)
      unlabeled_dataset = WeaklySupervisedDataset(base_dataset, unlabeled_indices, ...)
      return labeled_dataset, unlabeled_dataset, labeled_indices, unlabeled_indices, test_dataset
  \<close>
  The training set enters through its label list \<open>base_targets\<close> (one label per
  sample, so \<open>len(base_dataset)\<close> is its length); the test set is not modelled. The
  object is returned with \<open>add_labeled_num\<close> assigned, also when the split raises.
\<close>

definition get_dataset ::
  "cifar10_dataset \<Rightarrow> int list \<Rightarrow> nat list
     \<Rightarrow> cifar10_dataset \<times> (error + (dataset \<times> dataset \<times> int list \<times> int list))" where
  "get_dataset self base_targets permutation =
     (let self' = self\<lparr>add_labeled_num :=
                    Some (py_int (of_nat (length base_targets) * add_labeled_ratio self))\<rparr>
      in case train_test_split permutation (arange (length base_targets))
                (1 - labeled_ratio self) of
           Inl e \<Rightarrow> (self', Inl e)
         | Inr (labeled_indices, unlabeled_indices) \<Rightarrow>
             let targets = map (\<lambda>i. base_targets ! nat i) labeled_indices;
                 labeled_indices' =
                   masked_select labeled_indices
                     (map (\<lambda>t. \<not> (t \<in> set (remove_classes self))) targets)
             in (self', Inr (WeaklySupervisedDataset base_targets labeled_indices',
                             WeaklySupervisedDataset base_targets unlabeled_indices,
                             labeled_indices', unlabeled_indices)))"

section \<open>utils.py: create_model_optimizer_scheduler\<close>


record ('m, 'o, 's) framework =
  WideResNet :: "int \<Rightarrow> nat \<Rightarrow> int \<Rightarrow> rat \<Rightarrow> error + 'm"
  densenet121 :: "nat \<Rightarrow> error + 'm"
  LeNet :: "nat \<Rightarrow> nat \<Rightarrow> rat \<Rightarrow> nat \<Rightarrow> error + 'm"
  resnet18 :: "nat \<Rightarrow> error + 'm"
  cuda :: "'m \<Rightarrow> error + 'm"
  Adam :: "'m \<Rightarrow> error + 'o"
  StepLR :: "'o \<Rightarrow> nat \<Rightarrow> rat \<Rightarrow> error + 's"

text \<open>The part after the dispatch: move to the GPU, build optimizer and scheduler.\<close>

definition finish_model ::
  "('m, 'o, 's) framework \<Rightarrow> 'm \<Rightarrow> error + ('m \<times> 'o \<times> 's)" where
  "finish_model fw model =
     (case cuda fw model of
        Inl e \<Rightarrow> Inl e
      | Inr model' \<Rightarrow>
         (case Adam fw model' of
            Inl e \<Rightarrow> Inl e
          | Inr optimizer \<Rightarrow>
             (case StepLR fw optimizer 50 (2 / 10) of
                Inl e \<Rightarrow> Inl e
              | Inr scheduler \<Rightarrow> Inr (model', optimizer, scheduler))))"


text \<open>
  What the collaborators may do. \<open>raises fw e\<close>: some call of a constructor or of a
  framework function raises \<open>e\<close>; \<open>returns fw\<close>: no call raises.
\<close>

definition raises :: "('m, 'o, 's) framework \<Rightarrow> error \<Rightarrow> bool" where
  "raises fw e =
     ((\<exists>d n w r. WideResNet fw d n w r = Inl e) \<or> (\<exists>n. densenet121 fw n = Inl e) \<or>
      (\<exists>c n r i. LeNet fw c n r i = Inl e) \<or> (\<exists>n. resnet18 fw n = Inl e) \<or>
      (\<exists>m. cuda fw m = Inl e) \<or> (\<exists>m. Adam fw m = Inl e) \<or>
      (\<exists>opt k g. StepLR fw opt k g = Inl e))"

definition returns :: "('m, 'o, 's) framework \<Rightarrow> bool" where
  "returns fw = (\<forall>e. \<not> raises fw e)"

section \<open>utils.py: resume_model\<close>

text \<open>
  \<open>os.path.join\<close> on a POSIX system: a component that starts with \<open>/\<close> discards what
  came before it; otherwise it is appended, after a \<open>/\<close> unless the path so far is empty
  or ends with one.
\<close>

definition join_component :: "string \<Rightarrow> string \<Rightarrow> string" where
  "join_component path b =
     (if b \<noteq> [] \<and> hd b = CHR ''/'' then b
      else if path = [] \<or> last path = CHR ''/'' then path @ b
      else path @ ''/'' @ b)"

definition os_path_join :: "string \<Rightarrow> string list \<Rightarrow> string" where
  "os_path_join a p = foldl join_component a p"

text \<open>
  \<^verbatim>\<open>
  def resume_model(args, model):
      file = os.path.join(args.checkpoint_path, args.name, 'model_best.pth.tar')
      if os.path.isfile(file):
          print("=> loading checkpoint '{}'".format(file))
          checkpoint = torch.load(file)
          args.start_epoch = checkpoint['epoch']
          model.load_state_dict(checkpoint['state_dict'])
          print("=> loaded checkpoint '{}' (epoch {})".format(args.resume, checkpoint['epoch']))
      else:
          print("=> no checkpoint found at '{}'".format(file))
      return model
  \<close>
  The file system and the framework are parameters: \<open>isfile\<close>, \<open>torch_load\<close> (a
  checkpoint is a dictionary, its two keys read here may be missing) and
  \<open>load_state_dict\<close>. The function returns the model it was given (the object, updated
  in place when a checkpoint was loaded). The result carries the outcome, the arguments
  object as the call leaves it, and the lines printed.
\<close>

record resume_args =
  checkpoint_path :: string
  name :: string
  start_epoch :: int
  resume :: string

record 'sd checkpoint =
  ck_epoch :: "int option"
  ck_state_dict :: "'sd option"

record ('m, 'sd) file_system =
  isfile :: "string \<Rightarrow> bool"
  torch_load :: "string \<Rightarrow> error + 'sd checkpoint"
  load_state_dict :: "'m \<Rightarrow> 'sd \<Rightarrow> error + 'm"

text \<open>The text of an integer, as \<open>str.format\<close> writes it.\<close>

fun digits :: "nat \<Rightarrow> string" where
  "digits n = (if n < 10 then [char_of (48 + n)] else digits (n div 10) @ [char_of (48 + n mod 10)])"

definition str_int :: "int \<Rightarrow> string" where
  "str_int i = (if i < 0 then ''-'' @ digits (nat (- i)) else digits (nat i))"

definition quoted :: "string \<Rightarrow> string" where
  "quoted s = [CHR 0x27] @ s @ [CHR 0x27]"

definition resume_model ::
  "('m, 'sd) file_system \<Rightarrow> resume_args \<Rightarrow> 'm
     \<Rightarrow> (error + 'm) \<times> resume_args \<times> string list" where
  "resume_model fs args model =
     (let file = os_path_join (checkpoint_path args) [name args, ''model_best.pth.tar''] in
      if isfile fs file then
        (let out1 = [''=> loading checkpoint '' @ quoted file] in
         case torch_load fs file of
           Inl e \<Rightarrow> (Inl e, args, out1)
         | Inr checkpoint \<Rightarrow>
            (case ck_epoch checkpoint of
               None \<Rightarrow> (Inl KeyError, args, out1)
             | Some epoch \<Rightarrow>
                (let args' = args\<lparr>start_epoch := epoch\<rparr> in
                 case ck_state_dict checkpoint of
                   None \<Rightarrow> (Inl KeyError, args', out1)
                 | Some state_dict \<Rightarrow>
                    (case load_state_dict fs model state_dict of
                       Inl e \<Rightarrow> (Inl e, args', out1)
                     | Inr model' \<Rightarrow>
                        (Inr model', args',
                         out1 @ [''=> loaded checkpoint '' @ quoted (resume args') @
                                 '' (epoch '' @ str_int epoch @ '')''])))))
      else (Inr model, args, [''=> no checkpoint found at '' @ quoted file]))"

section \<open>utils.py: NTXent\<close>

text \<open>
  \<^verbatim>\<open>
  def mask_correlated_samples(self):
      mask = torch.ones((self.batch_size * 2, self.batch_size * 2), dtype=bool)
      mask = mask.fill_diagonal_(0)
      for i in range(self.batch_size):
          mask[i, self.batch_size + i] = 0
          mask[self.batch_size + i, i] = 0
      return mask
  \<close>
  A boolean matrix is a list of rows. \<open>torch.ones\<close> raises a RuntimeError for a negative
  dimension. The two writes of the loop are in range for every \<open>i\<close> the loop visits.
\<close>

definition fill_diagonal :: "bool list list \<Rightarrow> bool \<Rightarrow> bool list list" where
  "fill_diagonal m v = map (\<lambda>(i, row). row[i := v]) (zip [0..<length m] m)"

definition set_entry :: "bool list list \<Rightarrow> nat \<Rightarrow> nat \<Rightarrow> bool \<Rightarrow> bool list list" where
  "set_entry m r c v = m[r := (m ! r)[c := v]]"

definition mask_correlated_samples :: "int \<Rightarrow> error + bool list list" where
  "mask_correlated_samples batch_size =
     (if batch_size < 0 then Inl (FrameworkError ''RuntimeError'')
      else
        let n = nat (batch_size * 2);
            b = nat batch_size;
            mask0 = replicate n (replicate n True);
            mask1 = fill_diagonal mask0 False
        in Inr (fold (\<lambda>i m. set_entry (set_entry m i (b + i) False) (b + i) i False)
                  [0..<b] mask1))"

text \<open>
  \<^verbatim>\<open>
  def forward(self, z_i, z_j):
      p1 = torch.cat((z_i, z_j), dim=0)
      sim = self.similarity_f(p1.unsqueeze(1), p1.unsqueeze(0)) / self.temperature
      sim_i_j = torch.diag(sim, self.batch_size)
      sim_j_i = torch.diag(sim, -self.batch_size)
      positive_samples = torch.cat((sim_i_j, sim_j_i), dim=0).reshape(self.batch_size * 2, 1)
      negative_samples = sim[self.mask].reshape(self.batch_size * 2, -1)
      labels = torch.zeros(self.batch_size * 2).to(self.device).long()
      logits = torch.cat((positive_samples, negative_samples), dim=1)
      loss = self.criterion(logits, labels)
      loss /= 2 * self.batch_size
      return loss
  \<close>
  The embeddings are opaque; \<open>sim_f x y\<close> stands for the cosine similarity of two
  embeddings divided by the temperature, a floating-point value kept abstract. The
  tensor operations are modelled on lists: \<open>torch.diag\<close> of a square matrix with an
  offset, selection by a boolean matrix of the same shape in row-major order
  (IndexError on a shape mismatch), \<open>reshape(n, 1)\<close> and \<open>reshape(n, -1)\<close> (RuntimeError
  when the number of entries does not fit), and concatenation along columns.
\<close>

definition torch_diag :: "'a list list \<Rightarrow> int \<Rightarrow> 'a list" where
  "torch_diag m k =
     (if 0 \<le> k then map (\<lambda>i. m ! i ! (i + nat k)) [0..<length m - nat k]
      else map (\<lambda>i. m ! (i + nat (- k)) ! i) [0..<length m - nat (- k)])"

definition select_by_mask :: "'a list list \<Rightarrow> bool list list \<Rightarrow> error + 'a list" where
  "select_by_mask m msk =
     (if map length m = map length msk
      then Inr (concat (map (\<lambda>(row, mrow). masked_select row mrow) (zip m msk)))
      else Inl IndexError)"

fun rows_of :: "nat \<Rightarrow> nat \<Rightarrow> 'a list \<Rightarrow> 'a list list" where
  "rows_of 0 w xs = []"
| "rows_of (Suc n) w xs = take w xs # rows_of n w (drop w xs)"

definition reshape_column :: "nat \<Rightarrow> 'a list \<Rightarrow> error + 'a list list" where
  "reshape_column n xs =
     (if length xs = n then Inr (map (\<lambda>x. [x]) xs) else Inl (FrameworkError ''RuntimeError''))"

definition reshape_rows :: "nat \<Rightarrow> 'a list \<Rightarrow> error + 'a list list" where
  "reshape_rows n xs =
     (if n = 0 \<or> length xs mod n \<noteq> 0 then Inl (FrameworkError ''RuntimeError'')
      else Inr (rows_of n (length xs div n) xs))"

definition cat_columns :: "'a list list \<Rightarrow> 'a list list \<Rightarrow> 'a list list" where
  "cat_columns a b = map (\<lambda>(ra, rb). ra @ rb) (zip a b)"

text \<open>
  The part of \<open>forward\<close> up to the call of the criterion: the logits and the labels it
  is given.
\<close>

definition forward_logits ::
  "int \<Rightarrow> bool list list \<Rightarrow> ('z \<Rightarrow> 'z \<Rightarrow> 'a) \<Rightarrow> 'z list \<Rightarrow> 'z list
     \<Rightarrow> error + ('a list list \<times> nat list)" where
  "forward_logits batch_size msk sim_f z_i z_j =
     (let p1 = z_i @ z_j;
          sim = map (\<lambda>x. map (\<lambda>y. sim_f x y) p1) p1;
          sim_i_j = torch_diag sim batch_size;
          sim_j_i = torch_diag sim (- batch_size)
      in case reshape_column (nat (batch_size * 2)) (sim_i_j @ sim_j_i) of
           Inl e \<Rightarrow> Inl e
         | Inr positive_samples \<Rightarrow>
            (case select_by_mask sim msk of
               Inl e \<Rightarrow> Inl e
             | Inr selected \<Rightarrow>
                (case reshape_rows (nat (batch_size * 2)) selected of
                   Inl e \<Rightarrow> Inl e
                 | Inr negative_samples \<Rightarrow>
                     Inr (cat_columns positive_samples negative_samples,
                          replicate (nat (batch_size * 2)) 0))))"

text \<open>
  \<open>forward\<close> itself: the criterion (cross-entropy with summation) and the final
  division (\<open>scale\<close>) are floating-point operations and stay parameters.
\<close>

definition forward ::
  "('a list list \<Rightarrow> nat list \<Rightarrow> 'l) \<Rightarrow> ('l \<Rightarrow> int \<Rightarrow> 'l) \<Rightarrow> int \<Rightarrow> bool list list
     \<Rightarrow> ('z \<Rightarrow> 'z \<Rightarrow> 'a) \<Rightarrow> 'z list \<Rightarrow> 'z list \<Rightarrow> error + 'l" where
  "forward criterion scale batch_size msk sim_f z_i z_j =
     (case forward_logits batch_size msk sim_f z_i z_j of
        Inl e \<Rightarrow> Inl e
      | Inr (logits, labels) \<Rightarrow> Inr (scale (criterion logits labels) (2 * batch_size)))"

section \<open>AverageMeter: the running average\<close>





section \<open>Python indexing and postprocess_indices\<close>

lemma py_index_valid:
  "- int n \<le> i \<Longrightarrow> i < int n \<Longrightarrow> py_index n i = Some (py_pos n i) \<and> py_pos n i < n"
  by (auto simp: py_index_def py_pos_def)



















section \<open>perform_sampling: one round of the label budget loop\<close>

text \<open>
  The labelling loop of the \<open>'semi_supervised'\<close> branch writes \<open>samples_targets[i]\<close>
  into the label array at index \<open>samples_indices[i]\<close> and leaves every other entry as
  it was; it returns when the indices are in range and there is a predicted label for
  each of them.
\<close>

lemma pseudo_label_loop_step:
  assumes "- int (length tg) \<le> j" and "j < int (length tg)" and "i < length T"
  shows "\<exists>acc'. pseudo_label_loop T i (j # js) (tg, acc) =
           pseudo_label_loop T (Suc i) js (tg[py_pos (length tg) j := T ! i], acc')"
proof -
  let ?p = "py_pos (length tg) j"
  from assms py_index_valid[of "length tg" j]
  have v: "py_index (length tg) j = Some ?p" and lt: "?p < length tg" by simp_all
  show ?thesis
  proof (cases "tg ! ?p = T ! i")
    case True
    then have "tg[?p := T ! i] = tg" using lt by (metis list_update_id)
    then show ?thesis using v assms(3) True by (intro exI[of _ "acc[i := 1]"]) simp
  next
    case False
    then show ?thesis using v assms(3) by (intro exI[of _ acc]) simp
  qed
qed

lemma pseudo_label_loop_writes_positions:
  assumes "\<forall>j \<in> set js. - int (length tg) \<le> j \<and> j < int (length tg)"
    and "distinct (map (py_pos (length tg)) js)"
    and "i + length js \<le> length T"
  shows "\<exists>tg' acc'. pseudo_label_loop T i js (tg, acc) = Inr (tg', acc') \<and>
           length tg' = length tg \<and>
           (\<forall>k < length js. tg' ! py_pos (length tg) (js ! k) = T ! (i + k)) \<and>
           (\<forall>p < length tg. p \<notin> py_pos (length tg) ` set js \<longrightarrow> tg' ! p = tg ! p)"
  using assms
proof (induction js arbitrary: i tg acc)
  case Nil
  then show ?case by simp
next
  case (Cons j js)
  let ?n = "length tg"
  let ?p = "py_pos ?n j"
  let ?tg1 = "tg[?p := T ! i]"
  from Cons.prems have jv: "- int ?n \<le> j" "j < int ?n" and iT: "i < length T" by simp_all
  from jv py_index_valid[of ?n j] have lt: "?p < ?n" by simp
  from pseudo_label_loop_step[OF jv iT, of js acc] obtain acc1 where
    step: "pseudo_label_loop T i (j # js) (tg, acc) = pseudo_label_loop T (Suc i) js (?tg1, acc1)"
    by blast
  have len1: "length ?tg1 = ?n" by simp
  have p1: "\<forall>j \<in> set js. - int (length ?tg1) \<le> j \<and> j < int (length ?tg1)"
    using Cons.prems(1) by simp
  have p2: "distinct (map (py_pos (length ?tg1)) js)" using Cons.prems(2) by simp
  have p3: "Suc i + length js \<le> length T" using Cons.prems(3) by simp
  from Cons.IH[OF p1 p2 p3, of acc1] obtain tg' acc' where
    run: "pseudo_label_loop T (Suc i) js (?tg1, acc1) = Inr (tg', acc')"
    and len: "length tg' = ?n"
    and wr: "\<forall>k < length js. tg' ! py_pos ?n (js ! k) = T ! (Suc i + k)"
    and un: "\<forall>p < ?n. p \<notin> py_pos ?n ` set js \<longrightarrow> tg' ! p = ?tg1 ! p"
    by (auto simp: len1)
  have notin: "?p \<notin> py_pos ?n ` set js" using Cons.prems(2) by auto
  have here: "tg' ! ?p = T ! i" using un lt notin by simp
  have written: "\<forall>k < length (j # js). tg' ! py_pos ?n ((j # js) ! k) = T ! (i + k)"
  proof (intro allI impI)
    fix k assume k: "k < length (j # js)"
    show "tg' ! py_pos ?n ((j # js) ! k) = T ! (i + k)"
    proof (cases k)
      case 0
      then show ?thesis using here by simp
    next
      case (Suc k')
      then show ?thesis using wr k by simp
    qed
  qed
  have others: "\<forall>p < ?n. p \<notin> py_pos ?n ` set (j # js) \<longrightarrow> tg' ! p = tg ! p"
    using un by auto
  from step run len written others show ?case by simp
qed







section \<open>The label budget of a random round\<close>

lemma permutation_facts:
  assumes "mset draw = mset [0..<n]"
  shows "distinct draw" and "set draw = {0..<n}" and "length draw = n"
proof -
  show "distinct draw"
    using assms mset_eq_imp_distinct_iff[of draw "[0..<n]"] by simp
  show "set draw = {0..<n}"
    using assms mset_eq_setD[of draw "[0..<n]"] by simp
  show "length draw = n"
    using assms mset_eq_length[of draw "[0..<n]"] by simp
qed


lemma py_pos_nonneg: "0 \<le> s \<Longrightarrow> py_pos n s = nat s"
  by (simp add: py_pos_def)



section \<open>Cifar10Dataset.get_dataset: the initial split\<close>

lemma masked_select_map_filter: "masked_select xs (map P xs) = filter P xs"
  by (induction xs) (simp_all add: masked_select_def)

lemma train_test_split_arange:
  assumes perm: "mset permutation = mset [0..<n]"
    and res: "train_test_split permutation (arange n) t = Inr (tr, te)"
  shows "tr = map int (drop (nat \<lceil>t * of_nat n\<rceil>) permutation) \<and>
         te = map int (take (nat \<lceil>t * of_nat n\<rceil>) permutation)"
proof -
  note pf = permutation_facts[OF perm]
  let ?k = "nat \<lceil>t * of_nat n\<rceil>"
  have lt: "\<forall>p \<in> set permutation. p < n" using pf(2) by simp
  have nth_ar: "\<And>ps. set ps \<subseteq> set permutation \<Longrightarrow> map (nth (arange n)) ps = map int ps"
    using lt by (auto simp: arange_def)
  have "take (n - ?k) (drop ?k permutation) = drop ?k permutation"
    using pf(3) by simp
  moreover have "set (drop ?k permutation) \<subseteq> set permutation" by (rule set_drop_subset)
  moreover have "set (take ?k permutation) \<subseteq> set permutation" by (rule set_take_subset)
  ultimately show ?thesis
    using res nth_ar
    by (auto simp: train_test_split_def Let_def arange_def split: if_splits)
qed

lemma train_test_split_returns:
  assumes "0 < t" and "t < 1" and "nat \<lceil>t * of_nat n\<rceil> < n"
  shows "\<exists>tr te. train_test_split permutation (arange n) t = Inr (tr, te)"
  using assms by (simp add: train_test_split_def Let_def arange_def)

text \<open>
  Claim C8. For a \<open>labeled_ratio\<close> strictly between 0 and 1 (and the class's
  \<open>remove_classes = [0, 1, 2]\<close>), the index arrays \<open>get_dataset\<close> returns are disjoint
  and lie in \<open>[0, len(base_dataset))\<close>; every labeled index has a label outside
  \<open>{0, 1, 2}\<close>; the unlabeled array is the test part of the split as it is, while the
  labeled array is the train part filtered by class. The two arrays together miss
  exactly the train-part indices whose label is 0, 1 or 2, so they need not cover the
  training set. The call returns whenever \<open>labeled_ratio * len(base_dataset) \<ge> 1\<close>.
\<close>

theorem get_dataset_split:
  assumes lo: "0 < labeled_ratio self" and hi: "labeled_ratio self < 1"
    and rem: "remove_classes self = [0, 1, 2]"
    and perm: "mset permutation = mset [0..<length base_targets]"
  shows "(\<forall>self' ld ud L U.
            get_dataset self base_targets permutation = (self', Inr (ld, ud, L, U)) \<longrightarrow>
              set L \<inter> set U = {} \<and>
              (\<forall>i \<in> set L \<union> set U. 0 \<le> i \<and> i < int (length base_targets)) \<and>
              (\<forall>i \<in> set L. base_targets ! nat i \<notin> {0, 1, 2}) \<and>
              (\<exists>L0. train_test_split permutation (arange (length base_targets))
                        (1 - labeled_ratio self) = Inr (L0, U) \<and>
                    L = filter (\<lambda>i. base_targets ! nat i \<notin> {0, 1, 2}) L0 \<and>
                    set L \<union> set U =
                      {i. 0 \<le> i \<and> i < int (length base_targets)} -
                      {i \<in> set L0. base_targets ! nat i \<in> {0, 1, 2}})) \<and>
         (1 \<le> labeled_ratio self * of_nat (length base_targets) \<longrightarrow>
            (\<exists>self' ld ud L U.
               get_dataset self base_targets permutation = (self', Inr (ld, ud, L, U))))"
proof -
  let ?n = "length base_targets"
  let ?t = "1 - labeled_ratio self"
  let ?k = "nat \<lceil>?t * of_nat ?n\<rceil>"
  note pf = permutation_facts[OF perm]
  have props: "\<forall>self' ld ud L U.
            get_dataset self base_targets permutation = (self', Inr (ld, ud, L, U)) \<longrightarrow>
              set L \<inter> set U = {} \<and>
              (\<forall>i \<in> set L \<union> set U. 0 \<le> i \<and> i < int ?n) \<and>
              (\<forall>i \<in> set L. base_targets ! nat i \<notin> {0, 1, 2}) \<and>
              (\<exists>L0. train_test_split permutation (arange ?n) ?t = Inr (L0, U) \<and>
                    L = filter (\<lambda>i. base_targets ! nat i \<notin> {0, 1, 2}) L0 \<and>
                    set L \<union> set U =
                      {i. 0 \<le> i \<and> i < int ?n} -
                      {i \<in> set L0. base_targets ! nat i \<in> {0, 1, 2}})"
  proof (intro allI impI)
    fix self' ld ud L U
    assume gd: "get_dataset self base_targets permutation = (self', Inr (ld, ud, L, U))"
    then obtain L0 where split: "train_test_split permutation (arange ?n) ?t = Inr (L0, U)"
      and L: "L = masked_select L0
                 (map (\<lambda>t. \<not> (t \<in> set (remove_classes self)))
                    (map (\<lambda>i. base_targets ! nat i) L0))"
      by (auto simp: get_dataset_def Let_def split: sum.splits prod.splits)
    have Lf: "L = filter (\<lambda>i. base_targets ! nat i \<notin> {0, 1, 2}) L0"
      using L rem masked_select_map_filter[of L0 "\<lambda>i. base_targets ! nat i \<notin> {0, 1, 2}"]
      by (simp add: comp_def)
    from train_test_split_arange[OF perm split]
    have L0: "L0 = map int (drop ?k permutation)" and U: "U = map int (take ?k permutation)"
      by simp_all
    have dj0: "set L0 \<inter> set U = {}"
    proof -
      have "set (drop ?k permutation) \<inter> set (take ?k permutation) = {}"
        using pf(1) set_take_disj_set_drop_if_distinct[of permutation ?k ?k] by auto
      then show ?thesis unfolding L0 U by auto
    qed
    have all: "set L0 \<union> set U = {i. 0 \<le> i \<and> i < int ?n}"
    proof -
      have "set (drop ?k permutation) \<union> set (take ?k permutation) = {0..<?n}"
        using pf(2) set_append[of "take ?k permutation" "drop ?k permutation"] by auto
      then have "set L0 \<union> set U = int ` {0..<?n}"
        unfolding L0 U by (simp add: image_Un[symmetric])
      also have "\<dots> = {i. 0 \<le> i \<and> i < int ?n}"
      proof (rule set_eqI)
        fix i :: int
        show "(i \<in> int ` {0..<?n}) = (i \<in> {i. 0 \<le> i \<and> i < int ?n})"
        proof
          assume "i \<in> int ` {0..<?n}"
          then show "i \<in> {i. 0 \<le> i \<and> i < int ?n}" by auto
        next
          assume "i \<in> {i. 0 \<le> i \<and> i < int ?n}"
          then have "i = int (nat i)" "nat i \<in> {0..<?n}" by auto
          then show "i \<in> int ` {0..<?n}" by (rule image_eqI)
        qed
      qed
      finally show ?thesis .
    qed
    have c1: "set L \<inter> set U = {}" using dj0 Lf by auto
    have c2: "\<forall>i \<in> set L \<union> set U. 0 \<le> i \<and> i < int ?n"
      using all Lf by auto
    have c3: "\<forall>i \<in> set L. base_targets ! nat i \<notin> {0, 1, 2}" using Lf by simp
    have c4: "set L \<union> set U =
        {i. 0 \<le> i \<and> i < int ?n} - {i \<in> set L0. base_targets ! nat i \<in> {0, 1, 2}}"
      using all dj0 Lf by auto
    from c1 c2 c3 split Lf c4
    show "set L \<inter> set U = {} \<and>
              (\<forall>i \<in> set L \<union> set U. 0 \<le> i \<and> i < int ?n) \<and>
              (\<forall>i \<in> set L. base_targets ! nat i \<notin> {0, 1, 2}) \<and>
              (\<exists>L0. train_test_split permutation (arange ?n) ?t = Inr (L0, U) \<and>
                    L = filter (\<lambda>i. base_targets ! nat i \<notin> {0, 1, 2}) L0 \<and>
                    set L \<union> set U =
                      {i. 0 \<le> i \<and> i < int ?n} -
                      {i \<in> set L0. base_targets ! nat i \<in> {0, 1, 2}})"
      by blast
  qed
  have returns: "1 \<le> labeled_ratio self * of_nat ?n \<longrightarrow>
            (\<exists>self' ld ud L U.
               get_dataset self base_targets permutation = (self', Inr (ld, ud, L, U)))"
  proof
    assume big: "1 \<le> labeled_ratio self * of_nat ?n"
    have "?t * of_nat ?n = of_nat ?n - labeled_ratio self * of_nat ?n"
      by (simp add: algebra_simps)
    with big have le: "?t * of_nat ?n \<le> of_int (int ?n - 1)" by simp
    have cl: "\<lceil>?t * of_nat ?n\<rceil> \<le> int ?n - 1"
      using le by (simp only: ceiling_le_iff)
    have npos: "0 < int ?n" using big by (cases "?n = 0") simp_all
    have "\<And>z::int. z \<le> int ?n - 1 \<Longrightarrow> 0 < int ?n \<Longrightarrow> nat z < ?n"
      by linarith
    from this[OF cl npos] have "?k < ?n" .
    moreover have "0 < ?t" "?t < 1" using lo hi by simp_all
    ultimately obtain tr te where
      "train_test_split permutation (arange ?n) ?t = Inr (tr, te)"
      using train_test_split_returns[of ?t ?n permutation] by blast
    then show "\<exists>self' ld ud L U.
               get_dataset self base_targets permutation = (self', Inr (ld, ud, L, U))"
      by (simp add: get_dataset_def Let_def)
  qed
  from props returns show ?thesis by blast
qed

theorem get_dataset_split_witness:
  "0 < labeled_ratio (Cifar10Dataset (1/2) (1/4)) \<and>
   labeled_ratio (Cifar10Dataset (1/2) (1/4)) < 1 \<and>
   remove_classes (Cifar10Dataset (1/2) (1/4)) = [0, 1, 2] \<and>
   mset [3, 1, 4, 0, 6, 2, 7, 5] = mset [0..<length [0, 3, 4, 1, 5, 9, 2, 7::int]] \<and>
   snd (get_dataset (Cifar10Dataset (1/2) (1/4))
          [0, 3, 4, 1, 5, 9, 2, 7] [3, 1, 4, 0, 6, 2, 7, 5]) =
     Inr (\<lparr>ds_indices = [2, 7, 5], ds_targets = [0, 3, 4, 1, 5, 9, 2, 7]\<rparr>,
          \<lparr>ds_indices = [3, 1, 4, 0], ds_targets = [0, 3, 4, 1, 5, 9, 2, 7]\<rparr>,
          [2, 7, 5], [3, 1, 4, 0]) \<and>
   set [2, 7, 5] \<inter> set [3, 1, 4, 0::int] = {} \<and>
   6 \<notin> set [2, 7, 5] \<union> set [3, 1, 4, 0::int]"
proof -
  let ?self = "Cifar10Dataset (1/2) (1/4)"
  let ?tg = "[0, 3, 4, 1, 5, 9, 2, 7::int]"
  let ?perm = "[3, 1, 4, 0, 6, 2, 7, 5::nat]"
  let ?g = "get_dataset ?self ?tg ?perm"
  have lo: "0 < labeled_ratio ?self" and hi: "labeled_ratio ?self < 1"
    and rem: "remove_classes ?self = [0, 1, 2]"
    by (simp_all add: Cifar10Dataset_def)
  have perm: "mset ?perm = mset [0..<length ?tg]"
    by (simp add: upt_rec eval_nat_numeral)
  have run: "?g = (fst ?g,
     Inr (\<lparr>ds_indices = [2, 7, 5], ds_targets = ?tg\<rparr>,
          \<lparr>ds_indices = [3, 1, 4, 0], ds_targets = ?tg\<rparr>,
          [2, 7, 5], [3, 1, 4, 0]))"
    by (simp add: get_dataset_def train_test_split_def arange_def Cifar10Dataset_def
        WeaklySupervisedDataset_def masked_select_def Let_def upt_rec)
  from get_dataset_split [OF lo hi rem perm] run
  have "set [2, 7, 5] \<inter> set [3, 1, 4, 0::int] = {}"
    by blast
  moreover have "6 \<notin> set [2, 7, 5] \<union> set [3, 1, 4, 0::int]" by simp
  moreover have "snd ?g = Inr (\<lparr>ds_indices = [2, 7, 5], ds_targets = ?tg\<rparr>,
          \<lparr>ds_indices = [3, 1, 4, 0], ds_targets = ?tg\<rparr>,
          [2, 7, 5], [3, 1, 4, 0])"
    by (subst run) simp
  ultimately show ?thesis using lo hi rem perm by blast
qed

section \<open>NTXent: the mask and the logits\<close>

lemma set_entry_map:
  assumes "r < n" and "c < n"
  shows "set_entry (map (\<lambda>p. map (f p) [0..<n]) [0..<n]) r c v =
           map (\<lambda>p. map (\<lambda>q. if p = r \<and> q = c then v else f p q) [0..<n]) [0..<n]"
proof (rule nth_equalityI)
  show "length (set_entry (map (\<lambda>p. map (f p) [0..<n]) [0..<n]) r c v) =
        length (map (\<lambda>p. map (\<lambda>q. if p = r \<and> q = c then v else f p q) [0..<n]) [0..<n])"
    by (simp add: set_entry_def)
next
  fix p assume "p < length (set_entry (map (\<lambda>p. map (f p) [0..<n]) [0..<n]) r c v)"
  then have p: "p < n" by (simp add: set_entry_def)
  show "set_entry (map (\<lambda>p. map (f p) [0..<n]) [0..<n]) r c v ! p =
        map (\<lambda>p. map (\<lambda>q. if p = r \<and> q = c then v else f p q) [0..<n]) [0..<n] ! p"
  proof (cases "p = r")
    case True
    have "(map (f r) [0..<n])[c := v] = map (\<lambda>q. if q = c then v else f r q) [0..<n]"
      by (rule nth_equalityI) (simp_all add: nth_list_update)
    then show ?thesis using True p assms by (simp add: set_entry_def)
  next
    case False
    then show ?thesis using p assms by (simp add: set_entry_def)
  qed
qed

lemma fill_diagonal_map:
  "fill_diagonal (map (\<lambda>p. map (f p) [0..<n]) [0..<n]) v =
     map (\<lambda>p. map (\<lambda>q. if q = p then v else f p q) [0..<n]) [0..<n]"
proof (rule nth_equalityI)
  show "length (fill_diagonal (map (\<lambda>p. map (f p) [0..<n]) [0..<n]) v) =
        length (map (\<lambda>p. map (\<lambda>q. if q = p then v else f p q) [0..<n]) [0..<n])"
    by (simp add: fill_diagonal_def)
next
  fix p assume "p < length (fill_diagonal (map (\<lambda>p. map (f p) [0..<n]) [0..<n]) v)"
  then have p: "p < n" by (simp add: fill_diagonal_def)
  have "(map (f p) [0..<n])[p := v] = map (\<lambda>q. if q = p then v else f p q) [0..<n]"
    by (rule nth_equalityI) (simp_all add: nth_list_update)
  then show "fill_diagonal (map (\<lambda>p. map (f p) [0..<n]) [0..<n]) v ! p =
        map (\<lambda>p. map (\<lambda>q. if q = p then v else f p q) [0..<n]) [0..<n] ! p"
    using p by (simp add: fill_diagonal_def)
qed

lemma ones_map: "replicate n (replicate n True) = map (\<lambda>p. map (\<lambda>q. True) [0..<n]) [0..<n]"
  by (simp add: map_replicate_const)

lemma matrix_cong:
  assumes "\<And>p q. p < n \<Longrightarrow> q < n \<Longrightarrow> f p q = g p q"
  shows "map (\<lambda>p. map (f p) [0..<n]) [0..<n] = map (\<lambda>p. map (g p) [0..<n]) [0..<n]"
  using assms by simp

lemma mask_loop:
  assumes "k \<le> b"
  shows "fold (\<lambda>i m. set_entry (set_entry m i (b + i) False) (b + i) i False) [0..<k]
           (map (\<lambda>p. map (\<lambda>q. q \<noteq> p) [0..<2 * b]) [0..<2 * b]) =
         map (\<lambda>p. map (\<lambda>q. \<not> (q = p \<or> (p < k \<and> q = b + p) \<or> (q < k \<and> p = b + q)))
                  [0..<2 * b]) [0..<2 * b]"
  using assms
proof (induction k)
  case 0
  then show ?case by simp
next
  case (Suc k)
  let ?n = "2 * b"
  let ?f = "\<lambda>p q. \<not> (q = p \<or> (p < k \<and> q = b + p) \<or> (q < k \<and> p = b + q))"
  from Suc.prems have kb: "k < b" by simp
  then have r1: "k < ?n" and c1: "b + k < ?n" by simp_all
  have IH: "fold (\<lambda>i m. set_entry (set_entry m i (b + i) False) (b + i) i False) [0..<k]
           (map (\<lambda>p. map (\<lambda>q. q \<noteq> p) [0..<?n]) [0..<?n]) =
         map (\<lambda>p. map (?f p) [0..<?n]) [0..<?n]"
    using Suc.IH kb by simp
  have s1: "set_entry (map (\<lambda>p. map (?f p) [0..<?n]) [0..<?n]) k (b + k) False =
      map (\<lambda>p. map (\<lambda>q. if p = k \<and> q = b + k then False else ?f p q) [0..<?n]) [0..<?n]"
    by (rule set_entry_map[OF r1 c1])
  have s2: "set_entry (map (\<lambda>p. map (\<lambda>q. if p = k \<and> q = b + k then False else ?f p q)
                [0..<?n]) [0..<?n]) (b + k) k False =
      map (\<lambda>p. map (\<lambda>q. if p = b + k \<and> q = k then False
                          else if p = k \<and> q = b + k then False else ?f p q) [0..<?n]) [0..<?n]"
    by (rule set_entry_map[OF c1 r1])
  have fin: "map (\<lambda>p. map (\<lambda>q. if p = b + k \<and> q = k then False
                          else if p = k \<and> q = b + k then False else ?f p q) [0..<?n]) [0..<?n] =
      map (\<lambda>p. map (\<lambda>q. \<not> (q = p \<or> (p < Suc k \<and> q = b + p) \<or> (q < Suc k \<and> p = b + q)))
                  [0..<?n]) [0..<?n]"
    by (rule matrix_cong) (auto simp: less_Suc_eq)
  show ?case
    by (simp only: upt_Suc_append[OF le0] fold_append o_apply fold_simps IH s1 s2 fin)
qed

lemma mask_correlated_samples_eq:
  assumes "0 \<le> batch_size"
  shows "mask_correlated_samples batch_size =
           Inr (map (\<lambda>p. map (\<lambda>q. \<not> (q = p \<or> q = nat batch_size + p \<or> p = nat batch_size + q))
                            [0..<2 * nat batch_size]) [0..<2 * nat batch_size])"
proof -
  let ?b = "nat batch_size"
  have n: "nat (batch_size * 2) = 2 * ?b" using assms by (simp add: nat_mult_distrib)
  have init: "fill_diagonal (replicate (2 * ?b) (replicate (2 * ?b) True)) False =
      map (\<lambda>p. map (\<lambda>q. q \<noteq> p) [0..<2 * ?b]) [0..<2 * ?b]"
    by (simp only: ones_map fill_diagonal_map) simp
  have fin: "map (\<lambda>p. map (\<lambda>q. \<not> (q = p \<or> (p < ?b \<and> q = ?b + p) \<or> (q < ?b \<and> p = ?b + q)))
                  [0..<2 * ?b]) [0..<2 * ?b] =
      map (\<lambda>p. map (\<lambda>q. \<not> (q = p \<or> q = ?b + p \<or> p = ?b + q)) [0..<2 * ?b]) [0..<2 * ?b]"
    by (rule matrix_cong) auto
  have "mask_correlated_samples batch_size =
      Inr (fold (\<lambda>i m. set_entry (set_entry m i (?b + i) False) (?b + i) i False) [0..<?b]
             (fill_diagonal (replicate (2 * ?b) (replicate (2 * ?b) True)) False))"
    using assms by (simp add: mask_correlated_samples_def Let_def n)
  then show ?thesis
    by (simp only: init mask_loop[OF order_refl] fin)
qed

lemma masked_select_map:
  "masked_select (map f xs) (map P xs) = map f (filter P xs)"
  by (induction xs) (simp_all add: masked_select_def)

lemma negatives_count:
  assumes p: "p < 2 * b" and b: "1 \<le> b"
  shows "length (filter (\<lambda>q. \<not> (q = p \<or> q = b + p \<or> p = b + q)) [0..<2 * b]) = 2 * b - 2"
proof -
  let ?partner = "if p < b then p + b else p - b"
  have eq: "{q. q < 2 * b \<and> \<not> (q = p \<or> q = b + p \<or> p = b + q)} = {0..<2 * b} - {p, ?partner}"
    using p by auto
  have sub: "{p, ?partner} \<subseteq> {0..<2 * b}" using p by auto
  have ne: "p \<noteq> ?partner" using b by auto
  have "length (filter (\<lambda>q. \<not> (q = p \<or> q = b + p \<or> p = b + q)) [0..<2 * b]) =
        card {q. q < 2 * b \<and> \<not> (q = p \<or> q = b + p \<or> p = b + q)}"
  proof -
    have "{i. i < length [0..<2 * b] \<and>
             \<not> ([0..<2 * b] ! i = p \<or> [0..<2 * b] ! i = b + p \<or> p = b + [0..<2 * b] ! i)} =
          {q. q < 2 * b \<and> \<not> (q = p \<or> q = b + p \<or> p = b + q)}"
      by auto
    then show ?thesis by (simp only: length_filter_conv_card)
  qed
  also have "\<dots> = card ({0..<2 * b} - {p, ?partner})" by (simp only: eq)
  also have "\<dots> = card {0..<2 * b} - card {p, ?partner}"
    using sub by (intro card_Diff_subset) simp_all
  also have "\<dots> = 2 * b - 2" using ne by simp
  finally show ?thesis .
qed

lemma negatives_filter:
  assumes p: "p < 2 * b"
  shows "filter (\<lambda>q. \<not> (q = p \<or> q = b + p \<or> p = b + q)) [0..<2 * b] =
         filter (\<lambda>q. q \<noteq> p \<and> q \<noteq> (if p < b then p + b else p - b)) [0..<2 * b]"
  using p by (intro filter_cong) auto

lemma rows_of_concat:
  "length rs = n \<Longrightarrow> \<forall>r \<in> set rs. length r = w \<Longrightarrow> rows_of n w (concat rs) = rs"
  by (induction rs arbitrary: n) auto

lemma length_concat_rows:
  "\<forall>r \<in> set rs. length r = w \<Longrightarrow> length (concat rs) = length rs * w"
  by (induction rs) auto

lemma reshape_rows_concat:
  assumes "length rs = n" and "0 < n" and "\<forall>r \<in> set rs. length r = w"
  shows "reshape_rows n (concat rs) = Inr rs"
proof -
  have len: "length (concat rs) = n * w"
    using length_concat_rows[OF assms(3)] assms(1) by simp
  then have "length (concat rs) mod n = 0" "length (concat rs) div n = w"
    using assms(2) by simp_all
  then show ?thesis
    using assms by (simp add: reshape_rows_def rows_of_concat)
qed

lemma similarity_row:
  "map (\<lambda>y. sim_f x y) p1 = map (\<lambda>q. sim_f x (p1 ! q)) [0..<length p1]"
  by (rule nth_equalityI) simp_all

lemma select_rows:
  assumes len: "length p1 = n"
  shows "map (\<lambda>(row, mrow). masked_select row mrow)
           (zip (map (\<lambda>x. map (\<lambda>y. sim_f x y) p1) p1)
                (map (\<lambda>p. map (P p) [0..<n]) [0..<n])) =
         map (\<lambda>p. map (\<lambda>q. sim_f (p1 ! p) (p1 ! q)) (filter (P p) [0..<n])) [0..<n]"
proof (rule nth_equalityI)
  show "length (map (\<lambda>(row, mrow). masked_select row mrow)
           (zip (map (\<lambda>x. map (\<lambda>y. sim_f x y) p1) p1)
                (map (\<lambda>p. map (P p) [0..<n]) [0..<n]))) =
        length (map (\<lambda>p. map (\<lambda>q. sim_f (p1 ! p) (p1 ! q)) (filter (P p) [0..<n])) [0..<n])"
    using len by simp
next
  fix p
  assume "p < length (map (\<lambda>(row, mrow). masked_select row mrow)
           (zip (map (\<lambda>x. map (\<lambda>y. sim_f x y) p1) p1)
                (map (\<lambda>p. map (P p) [0..<n]) [0..<n])))"
  then have p: "p < n" using len by simp
  have "masked_select (map (\<lambda>y. sim_f (p1 ! p) y) p1) (map (P p) [0..<n]) =
        map (\<lambda>q. sim_f (p1 ! p) (p1 ! q)) (filter (P p) [0..<n])"
    using masked_select_map[of "\<lambda>q. sim_f (p1 ! p) (p1 ! q)" "[0..<n]" "P p"]
      similarity_row[of sim_f "p1 ! p" p1] len by simp
  then show "map (\<lambda>(row, mrow). masked_select row mrow)
           (zip (map (\<lambda>x. map (\<lambda>y. sim_f x y) p1) p1)
                (map (\<lambda>p. map (P p) [0..<n]) [0..<n])) ! p =
        map (\<lambda>p. map (\<lambda>q. sim_f (p1 ! p) (p1 ! q)) (filter (P p) [0..<n])) [0..<n] ! p"
    using p len by simp
qed

lemma positives:
  assumes len: "length p1 = 2 * b" and B: "1 \<le> B" and b: "b = nat B"
  shows "torch_diag (map (\<lambda>x. map (\<lambda>y. sim_f x y) p1) p1) B @
         torch_diag (map (\<lambda>x. map (\<lambda>y. sim_f x y) p1) p1) (- B) =
         map (\<lambda>p. sim_f (p1 ! p) (p1 ! (if p < b then p + b else p - b))) [0..<2 * b]"
proof -
  let ?sim = "map (\<lambda>x. map (\<lambda>y. sim_f x y) p1) p1"
  have up: "torch_diag ?sim B = map (\<lambda>i. sim_f (p1 ! i) (p1 ! (i + b))) [0..<b]"
    using B b len by (simp add: torch_diag_def)
  have lo: "torch_diag ?sim (- B) = map (\<lambda>i. sim_f (p1 ! (i + b)) (p1 ! i)) [0..<b]"
    using B b len by (simp add: torch_diag_def)
  show ?thesis
  proof (rule nth_equalityI)
    show "length (torch_diag ?sim B @ torch_diag ?sim (- B)) =
          length (map (\<lambda>p. sim_f (p1 ! p) (p1 ! (if p < b then p + b else p - b))) [0..<2 * b])"
      by (simp add: up lo)
  next
    fix p assume "p < length (torch_diag ?sim B @ torch_diag ?sim (- B))"
    then have p: "p < 2 * b" by (simp add: up lo)
    show "(torch_diag ?sim B @ torch_diag ?sim (- B)) ! p =
          map (\<lambda>p. sim_f (p1 ! p) (p1 ! (if p < b then p + b else p - b))) [0..<2 * b] ! p"
    proof (cases "p < b")
      case True
      then show ?thesis using p by (simp add: up lo nth_append)
    next
      case False
      then have "p - b < b" "p - b + b = p" using p by simp_all
      then show ?thesis using False p by (simp add: up lo nth_append)
    qed
  qed
qed

lemma forward_logits_eq:
  assumes B: "1 \<le> batch_size" and len: "length z_i + length z_j = 2 * nat batch_size"
  shows "forward_logits batch_size
           (map (\<lambda>p. map (\<lambda>q. \<not> (q = p \<or> q = nat batch_size + p \<or> p = nat batch_size + q))
                    [0..<2 * nat batch_size]) [0..<2 * nat batch_size])
           sim_f z_i z_j =
         Inr (map (\<lambda>p. sim_f ((z_i @ z_j) ! p)
                          ((z_i @ z_j) ! (if p < nat batch_size then p + nat batch_size
                                          else p - nat batch_size)) #
                      map (\<lambda>q. sim_f ((z_i @ z_j) ! p) ((z_i @ z_j) ! q))
                        (filter (\<lambda>q. q \<noteq> p \<and>
                                   q \<noteq> (if p < nat batch_size then p + nat batch_size
                                         else p - nat batch_size))
                           [0..<2 * nat batch_size]))
                [0..<2 * nat batch_size],
              replicate (2 * nat batch_size) 0)"
proof -
  define p1 where "p1 = z_i @ z_j"
  let ?b = "nat batch_size"
  let ?n = "2 * ?b"
  let ?P = "\<lambda>p q. \<not> (q = p \<or> q = ?b + p \<or> p = ?b + q)"
  let ?M = "map (\<lambda>p. map (?P p) [0..<?n]) [0..<?n]"
  let ?sim = "map (\<lambda>x. map (\<lambda>y. sim_f x y) p1) p1"
  let ?partner = "\<lambda>p. if p < ?b then p + ?b else p - ?b"
  let ?pos = "map (\<lambda>p. sim_f (p1 ! p) (p1 ! ?partner p)) [0..<?n]"
  let ?neg = "map (\<lambda>p. map (\<lambda>q. sim_f (p1 ! p) (p1 ! q)) (filter (?P p) [0..<?n])) [0..<?n]"
  have lp: "length p1 = ?n" using len by (simp add: p1_def)
  have n: "nat (batch_size * 2) = ?n" using B by (simp add: nat_mult_distrib)
  have b1: "1 \<le> ?b" using B by simp
  have pos: "torch_diag ?sim batch_size @ torch_diag ?sim (- batch_size) = ?pos"
    by (rule positives[OF lp B refl])
  have col: "reshape_column ?n ?pos = Inr (map (\<lambda>x. [x]) ?pos)"
    by (simp add: reshape_column_def)
  have shape: "map length ?sim = map length ?M"
    by (rule nth_equalityI) (simp_all add: lp)
  have sel: "select_by_mask ?sim ?M = Inr (concat ?neg)"
    by (simp only: select_by_mask_def shape[THEN eqTrueI] if_True
        select_rows[OF lp, of sim_f ?P])
  have wid: "\<forall>r \<in> set ?neg. length r = ?n - 2"
    using negatives_count[OF _ b1] by auto
  have resh: "reshape_rows ?n (concat ?neg) = Inr ?neg"
    using b1 by (intro reshape_rows_concat[OF _ _ wid]) simp_all
  have cat: "cat_columns (map (\<lambda>x. [x]) ?pos) ?neg =
      map (\<lambda>p. sim_f (p1 ! p) (p1 ! ?partner p) #
                map (\<lambda>q. sim_f (p1 ! p) (p1 ! q)) (filter (?P p) [0..<?n])) [0..<?n]"
    by (rule nth_equalityI) (simp_all add: cat_columns_def cong: if_cong)
  have flt: "map (\<lambda>p. sim_f (p1 ! p) (p1 ! ?partner p) #
                map (\<lambda>q. sim_f (p1 ! p) (p1 ! q)) (filter (?P p) [0..<?n])) [0..<?n] =
      map (\<lambda>p. sim_f (p1 ! p) (p1 ! ?partner p) #
                map (\<lambda>q. sim_f (p1 ! p) (p1 ! q))
                  (filter (\<lambda>q. q \<noteq> p \<and> q \<noteq> ?partner p) [0..<?n])) [0..<?n]"
  proof (rule map_cong[OF refl])
    fix p assume "p \<in> set [0..<?n]"
    then have "p < ?n" by simp
    from negatives_filter[OF this]
    show "sim_f (p1 ! p) (p1 ! ?partner p) #
            map (\<lambda>q. sim_f (p1 ! p) (p1 ! q)) (filter (?P p) [0..<?n]) =
          sim_f (p1 ! p) (p1 ! ?partner p) #
            map (\<lambda>q. sim_f (p1 ! p) (p1 ! q))
              (filter (\<lambda>q. q \<noteq> p \<and> q \<noteq> ?partner p) [0..<?n])"
      by (simp only:)
  qed
  have "forward_logits batch_size ?M sim_f z_i z_j =
      Inr (cat_columns (map (\<lambda>x. [x]) ?pos) ?neg, replicate ?n 0)"
    by (simp only: forward_logits_def Let_def p1_def[symmetric] n pos col sel resh sum.case)
  then show ?thesis unfolding p1_def[symmetric] by (simp only: cat flt)
qed

text \<open>
  Claim C4. For every batch size \<open>B \<ge> 1\<close>, \<open>mask_correlated_samples\<close> returns a
  symmetric \<open>2B\<close>-by-\<open>2B\<close> boolean matrix whose entry \<open>(p, q)\<close> is False exactly when
  \<open>p = q\<close> or \<open>|p - q| = B\<close>, so every row has exactly \<open>2B - 2\<close> True entries. In
  \<open>forward\<close>, on two batches of \<open>B\<close> embeddings, row \<open>p\<close> of the logits handed to the
  cross-entropy is the one positive similarity, that of embedding \<open>p\<close> with its partner
  \<open>p + B\<close> or \<open>p - B\<close>, followed by the \<open>2B - 2\<close> negative similarities, those of
  embedding \<open>p\<close> with every embedding other than itself and its partner; the labels
  are all 0.
\<close>

theorem ntxent_mask_and_pairs:
  assumes B: "1 \<le> batch_size"
  shows "\<exists>M. mask_correlated_samples batch_size = Inr M \<and>
           length M = 2 * nat batch_size \<and>
           (\<forall>p < 2 * nat batch_size.
              length (M ! p) = 2 * nat batch_size \<and>
              length (filter (\<lambda>x. x) (M ! p)) = 2 * nat batch_size - 2) \<and>
           (\<forall>p < 2 * nat batch_size. \<forall>q < 2 * nat batch_size.
              (M ! p ! q = False \<longleftrightarrow>
                 (p = q \<or> p + nat batch_size = q \<or> q + nat batch_size = p)) \<and>
              M ! p ! q = M ! q ! p) \<and>
           (\<forall>(sim_f :: 'z \<Rightarrow> 'z \<Rightarrow> 'a) z_i z_j.
              length z_i = nat batch_size \<and> length z_j = nat batch_size \<longrightarrow>
              (\<exists>logits.
                 forward_logits batch_size M sim_f z_i z_j =
                   Inr (logits, replicate (2 * nat batch_size) 0) \<and>
                 length logits = 2 * nat batch_size \<and>
                 (\<forall>p < 2 * nat batch_size.
                    logits ! p =
                      sim_f ((z_i @ z_j) ! p)
                        ((z_i @ z_j) ! (if p < nat batch_size then p + nat batch_size
                                        else p - nat batch_size)) #
                      map (\<lambda>q. sim_f ((z_i @ z_j) ! p) ((z_i @ z_j) ! q))
                        (filter (\<lambda>q. q \<noteq> p \<and>
                                   q \<noteq> (if p < nat batch_size then p + nat batch_size
                                         else p - nat batch_size))
                           [0..<2 * nat batch_size]) \<and>
                    length (logits ! p) = 1 + (2 * nat batch_size - 2))))"
proof -
  let ?b = "nat batch_size"
  let ?n = "2 * ?b"
  let ?P = "\<lambda>p q. \<not> (q = p \<or> q = ?b + p \<or> p = ?b + q)"
  let ?M = "map (\<lambda>p. map (?P p) [0..<?n]) [0..<?n]"
  have b1: "1 \<le> ?b" using B by simp
  have M: "mask_correlated_samples batch_size = Inr ?M"
    using mask_correlated_samples_eq[of batch_size] B by simp
  have lenM: "length ?M = ?n" by simp
  have rowsM: "\<forall>p < ?n. length (?M ! p) = ?n \<and> length (filter (\<lambda>x. x) (?M ! p)) = ?n - 2"
  proof (intro allI impI)
    fix p assume p: "p < ?n"
    have "filter (\<lambda>x. x) (map (?P p) [0..<?n]) = map (?P p) (filter (?P p) [0..<?n])"
      by (simp add: filter_map comp_def)
    then have "length (filter (\<lambda>x. x) (?M ! p)) = length (filter (?P p) [0..<?n])"
      using p by simp
    with negatives_count[OF p b1] p
    show "length (?M ! p) = ?n \<and> length (filter (\<lambda>x. x) (?M ! p)) = ?n - 2" by simp
  qed
  have entries: "\<forall>p < ?n. \<forall>q < ?n.
      (?M ! p ! q = False \<longleftrightarrow> (p = q \<or> p + ?b = q \<or> q + ?b = p)) \<and> ?M ! p ! q = ?M ! q ! p"
    by auto
  have fwd: "\<forall>(sim_f :: 'z \<Rightarrow> 'z \<Rightarrow> 'a) z_i z_j.
      length z_i = ?b \<and> length z_j = ?b \<longrightarrow>
      (\<exists>logits.
         forward_logits batch_size ?M sim_f z_i z_j = Inr (logits, replicate ?n 0) \<and>
         length logits = ?n \<and>
         (\<forall>p < ?n.
            logits ! p =
              sim_f ((z_i @ z_j) ! p) ((z_i @ z_j) ! (if p < ?b then p + ?b else p - ?b)) #
              map (\<lambda>q. sim_f ((z_i @ z_j) ! p) ((z_i @ z_j) ! q))
                (filter (\<lambda>q. q \<noteq> p \<and> q \<noteq> (if p < ?b then p + ?b else p - ?b)) [0..<?n]) \<and>
            length (logits ! p) = 1 + (?n - 2)))"
  proof (intro allI impI)
    fix sim_f :: "'z \<Rightarrow> 'z \<Rightarrow> 'a" and z_i z_j :: "'z list"
    assume l: "length z_i = ?b \<and> length z_j = ?b"
    then have len: "length z_i + length z_j = ?n" by simp
    let ?lg = "map (\<lambda>p. sim_f ((z_i @ z_j) ! p)
                          ((z_i @ z_j) ! (if p < ?b then p + ?b else p - ?b)) #
                      map (\<lambda>q. sim_f ((z_i @ z_j) ! p) ((z_i @ z_j) ! q))
                        (filter (\<lambda>q. q \<noteq> p \<and> q \<noteq> (if p < ?b then p + ?b else p - ?b))
                           [0..<?n]))
                [0..<?n]"
    have run: "forward_logits batch_size ?M sim_f z_i z_j = Inr (?lg, replicate ?n 0)"
      by (rule forward_logits_eq[OF B len])
    have rows: "\<forall>p < ?n.
        ?lg ! p =
          sim_f ((z_i @ z_j) ! p) ((z_i @ z_j) ! (if p < ?b then p + ?b else p - ?b)) #
          map (\<lambda>q. sim_f ((z_i @ z_j) ! p) ((z_i @ z_j) ! q))
            (filter (\<lambda>q. q \<noteq> p \<and> q \<noteq> (if p < ?b then p + ?b else p - ?b)) [0..<?n]) \<and>
        length (?lg ! p) = 1 + (?n - 2)"
    proof (intro allI impI)
      fix p assume p: "p < ?n"
      have "length (filter (\<lambda>q. q \<noteq> p \<and> q \<noteq> (if p < ?b then p + ?b else p - ?b)) [0..<?n])
            = ?n - 2"
        using negatives_count[OF p b1] by (simp only: negatives_filter[OF p])
      then show "?lg ! p =
          sim_f ((z_i @ z_j) ! p) ((z_i @ z_j) ! (if p < ?b then p + ?b else p - ?b)) #
          map (\<lambda>q. sim_f ((z_i @ z_j) ! p) ((z_i @ z_j) ! q))
            (filter (\<lambda>q. q \<noteq> p \<and> q \<noteq> (if p < ?b then p + ?b else p - ?b)) [0..<?n]) \<and>
        length (?lg ! p) = 1 + (?n - 2)"
        using p by (simp split del: if_split cong: if_cong)
    qed
    have "length ?lg = ?n" by simp
    with run rows
    show "\<exists>logits.
         forward_logits batch_size ?M sim_f z_i z_j = Inr (logits, replicate ?n 0) \<and>
         length logits = ?n \<and>
         (\<forall>p < ?n.
            logits ! p =
              sim_f ((z_i @ z_j) ! p) ((z_i @ z_j) ! (if p < ?b then p + ?b else p - ?b)) #
              map (\<lambda>q. sim_f ((z_i @ z_j) ! p) ((z_i @ z_j) ! q))
                (filter (\<lambda>q. q \<noteq> p \<and> q \<noteq> (if p < ?b then p + ?b else p - ?b)) [0..<?n]) \<and>
            length (logits ! p) = 1 + (?n - 2))"
      by blast
  qed
  from M lenM rowsM entries fwd show ?thesis by blast
qed

theorem ntxent_mask_and_pairs_witness:
  "(1::int) \<le> 2 \<and>
   mask_correlated_samples 2 =
     Inr [[False, True, False, True], [True, False, True, False],
          [False, True, False, True], [True, False, True, False]] \<and>
   length [0, 1::nat] = nat 2 \<and> length [2, 3::nat] = nat 2 \<and>
   forward_logits 2
     [[False, True, False, True], [True, False, True, False],
      [False, True, False, True], [True, False, True, False]]
     Pair [0, 1::nat] [2, 3::nat] =
     Inr ([[(0, 2), (0, 1), (0, 3)], [(1, 3), (1, 0), (1, 2)],
           [(2, 0), (2, 1), (2, 3)], [(3, 1), (3, 0), (3, 2)]],
          [0, 0, 0, 0])"
proof -
  have B: "(1::int) \<le> 2" by simp
  have run: "mask_correlated_samples 2 =
     Inr [[False, True, False, True], [True, False, True, False],
          [False, True, False, True], [True, False, True, False]]"
    by code_simp
  have lens: "length [0, 1::nat] = nat 2 \<and> length [2, 3::nat] = nat 2" by simp
  have fl: "forward_logits 2
     [[False, True, False, True], [True, False, True, False],
      [False, True, False, True], [True, False, True, False]]
     Pair [0, 1::nat] [2, 3::nat] =
     Inr ([[(0, 2), (0, 1), (0, 3)], [(1, 3), (1, 0), (1, 2)],
           [(2, 0), (2, 1), (2, 3)], [(3, 1), (3, 0), (3, 2)]],
          [0, 0, 0, 0])"
    by code_simp
  from ntxent_mask_and_pairs [OF B, where 'z = nat and 'a = "nat \<times> nat"]
  obtain M where M: "mask_correlated_samples 2 = Inr M"
    and fwd: "\<forall>(sim_f :: nat \<Rightarrow> nat \<Rightarrow> nat \<times> nat) z_i z_j.
      length z_i = nat 2 \<and> length z_j = nat 2 \<longrightarrow>
      (\<exists>logits. forward_logits 2 M sim_f z_i z_j = Inr (logits, replicate (2 * nat 2) 0) \<and>
         length logits = 2 * nat 2)"
    by blast
  from M run have Meq: "M = [[False, True, False, True], [True, False, True, False],
          [False, True, False, True], [True, False, True, False]]"
    by simp
  from fwd lens obtain logits where
    "forward_logits 2 M Pair [0, 1::nat] [2, 3::nat] = Inr (logits, replicate (2 * nat 2) 0)"
    and "length logits = 2 * nat 2"
    by blast
  with fl Meq have "length [[(0::nat, 2::nat), (0, 1), (0, 3)], [(1, 3), (1, 0), (1, 2)],
           [(2, 0), (2, 1), (2, 3)], [(3, 1), (3, 0), (3, 2)]] = 2 * nat 2"
    by simp
  with B run lens fl show ?thesis by blast
qed

section \<open>create_model_optimizer_scheduler: the dispatch on the architecture\<close>

lemma finish_model_cases:
  "(\<exists>e. finish_model fw m = Inl e \<and> raises fw e) \<or>
   (\<exists>m' opt sch. finish_model fw m = Inr (m', opt, sch))"
  by (auto simp: finish_model_def raises_def split: sum.splits)

lemma finish_model_returns:
  "returns fw \<Longrightarrow> \<exists>m' opt sch. finish_model fw m = Inr (m', opt, sch)"
  using finish_model_cases[of fw m] by (auto simp: returns_def)





section \<open>resume_model without a checkpoint\<close>

text \<open>
  Claim C9. When the file \<open>checkpoint_path/name/model_best.pth.tar\<close> does not exist,
  \<open>resume_model\<close> does not raise: it returns the model it was given, leaves the
  arguments (\<open>start_epoch\<close> among them) as they were, and prints one line.
\<close>

theorem resume_model_no_checkpoint:
  assumes "\<not> isfile fs (os_path_join (checkpoint_path args) [name args, ''model_best.pth.tar''])"
  shows "resume_model fs args model =
           (Inr model, args,
            [''=> no checkpoint found at '' @
             quoted (os_path_join (checkpoint_path args) [name args, ''model_best.pth.tar''])])"
  using assms by (simp add: resume_model_def Let_def)

theorem resume_model_no_checkpoint_witness:
  "\<not> isfile \<lparr>isfile = (\<lambda>f. f = ''other.tar''), torch_load = (\<lambda>f. Inl (FrameworkError ''load'')),
             load_state_dict = (\<lambda>m (sd::nat). Inr (sd::nat))\<rparr>
       (os_path_join (checkpoint_path \<lparr>checkpoint_path = ''ckpt'', name = ''run1'',
                                        start_epoch = 5, resume = ''''\<rparr>)
          [name \<lparr>checkpoint_path = ''ckpt'', name = ''run1'', start_epoch = 5, resume = ''''\<rparr>,
           ''model_best.pth.tar'']) \<and>
   resume_model \<lparr>isfile = (\<lambda>f. f = ''other.tar''), torch_load = (\<lambda>f. Inl (FrameworkError ''load'')),
                 load_state_dict = (\<lambda>m (sd::nat). Inr (sd::nat))\<rparr>
      \<lparr>checkpoint_path = ''ckpt'', name = ''run1'', start_epoch = 5, resume = ''''\<rparr> 7 =
     (Inr 7, \<lparr>checkpoint_path = ''ckpt'', name = ''run1'', start_epoch = 5, resume = ''''\<rparr>,
      [''=> no checkpoint found at '' @ quoted ''ckpt/run1/model_best.pth.tar''])"
proof -
  let ?fs = "\<lparr>isfile = (\<lambda>f. f = ''other.tar''), torch_load = (\<lambda>f. Inl (FrameworkError ''load'')),
             load_state_dict = (\<lambda>m (sd::nat). Inr (sd::nat))\<rparr>"
  let ?args = "\<lparr>checkpoint_path = ''ckpt'', name = ''run1'', start_epoch = 5, resume = ''''\<rparr>"
  have path: "os_path_join (checkpoint_path ?args) [name ?args, ''model_best.pth.tar''] =
      ''ckpt/run1/model_best.pth.tar''"
    by (simp add: os_path_join_def join_component_def)
  have nofile: "\<not> isfile ?fs (os_path_join (checkpoint_path ?args)
      [name ?args, ''model_best.pth.tar''])"
    unfolding path by simp
  from resume_model_no_checkpoint [OF nofile, of 7] path nofile
  show ?thesis by simp
qed

end
